theory Spec2Isabelle
  imports
    Complex_Main
    "HOL-Library.List_Lexorder"
    "HOL-Library.Product_Lexorder"
    "HOL-Library.Char_ord"
begin

section \<open>Observable effects of the controller\<close>

text \<open>
  The script drives four GPIO lines (lines 18 to 21 of \<^verbatim>\<open>cmeinit/__main__.py\<close>), writes
  log lines, removes marker files and runs external commands.  Every such effect is
  recorded as an event, in program order, so that ordering properties can be stated.

  What the outside world answers (the level of the reset input, the clock, the output of
  \<^verbatim>\<open>docker\<close>) is an input of the model.  A \<^verbatim>\<open>subprocess.run\<close> event stands for the
  completed call.  Failures of the GPIO library, of the logger and of the external
  commands themselves are outside the model; the exceptions that the script's own code
  raises are part of it.
\<close>

datatype pin = GPIO_STATUS_SOLID | GPIO_STATUS_GREEN | GPIO_N_RESET | GPIO_STANDBY

datatype level = LOW | HIGH

datatype marker = RECOVERY_FILE | POWEROFF_FILE

datatype thread_id = T_cmeapi | T_cmehw | T_cmeweb

datatype event =
    Gpio_output pin bool
  | Gpio_cleanup
  | Log_info string
  | Log_warning string
  | Os_remove marker
  | Sleep real
  | Restart bool bool bool
  | Subprocess_run "string list"
  | Popen string
  | Fifo_terminate
  | Thread_start thread_id
  | Thread_join thread_id
  | Print string
  | Sys_exit int

section \<open>Hold classifier: \<^verbatim>\<open>reset()\<close>\<close>

text \<open>
  \<^verbatim>\<open>Config.RECOVERY\<close> comes from \<^verbatim>\<open>.common.Config\<close>, which is not part of the source tree;
  the three thresholds are therefore parameters of the model.
\<close>

record recovery_config =
  RESET_REBOOT_SECONDS :: real
  RESET_RECOVERY_SECONDS :: real
  RESET_FACTORY_SECONDS :: real

text \<open>The local variables of \<^verbatim>\<open>reset()\<close> that the poll loop updates, with the events so far.\<close>

record reset_locals =
  recovery_mode :: bool
  factory_reset :: bool
  power_off :: bool
  emitted :: "event list"

text \<open>
  One pass through the loop body (lines 80 to 104) at elapsed time \<open>elapsed_seconds\<close>.
  The three tests are independent \<^verbatim>\<open>if\<close> statements, executed in this order.
\<close>

definition after_reboot_check :: "recovery_config \<Rightarrow> real \<Rightarrow> reset_locals \<Rightarrow> reset_locals" where
  "after_reboot_check cfg elapsed_seconds s =
     (if elapsed_seconds > RESET_REBOOT_SECONDS cfg \<and> \<not> recovery_mode s
      then s\<lparr>recovery_mode := True,
              emitted := emitted s @ [Log_info ''Reset to recovery mode detected'',
                                      Gpio_output GPIO_STATUS_GREEN False]\<rparr>
      else s)"

definition after_recovery_check :: "recovery_config \<Rightarrow> real \<Rightarrow> reset_locals \<Rightarrow> reset_locals" where
  "after_recovery_check cfg elapsed_seconds s =
     (if elapsed_seconds > RESET_RECOVERY_SECONDS cfg \<and> \<not> factory_reset s
      then s\<lparr>factory_reset := True,
              emitted := emitted s @ [Log_info ''Reset to factory defaults detected'',
                                      Gpio_output GPIO_STATUS_SOLID True]\<rparr>
      else s)"

definition after_factory_check :: "recovery_config \<Rightarrow> real \<Rightarrow> reset_locals \<Rightarrow> reset_locals" where
  "after_factory_check cfg elapsed_seconds s =
     (if elapsed_seconds > RESET_FACTORY_SECONDS cfg
      then s\<lparr>power_off := True, recovery_mode := False, factory_reset := False,
              emitted := emitted s @ [Log_info ''Power off/standby mode detected'']\<rparr>
      else s)"

definition loop_body :: "recovery_config \<Rightarrow> real \<Rightarrow> reset_locals \<Rightarrow> reset_locals" where
  "loop_body cfg elapsed_seconds s =
     (let s1 = after_reboot_check cfg elapsed_seconds s;
          s2 = after_recovery_check cfg elapsed_seconds s1;
          s3 = after_factory_check cfg elapsed_seconds s2
      in s3\<lparr>emitted := emitted s3 @ [Sleep (2 / 100)]\<rparr>)"

text \<open>
  The \<^verbatim>\<open>while\<close> loop of line 79.  Each evaluation of the loop test reads the reset input
  once, and each pass through the body reads the clock once; a sample \<open>(lv, now)\<close> is
  the level seen by one loop test together with the clock value the body would read next.
  The loop goes on while \<^verbatim>\<open>GPIO.input(GPIO_N_RESET) == GPIO.LOW or not power_off\<close>.
  When the samples run out the loop is still running, which is the value \<open>None\<close>.
\<close>

fun poll_loop :: "recovery_config \<Rightarrow> real \<Rightarrow> (level \<times> real) list \<Rightarrow> reset_locals \<Rightarrow> reset_locals option" where
  "poll_loop cfg reset_start_seconds [] s = None"
| "poll_loop cfg reset_start_seconds ((lv, now) # rest) s =
     (if lv = LOW \<or> \<not> power_off s
      then poll_loop cfg reset_start_seconds rest (loop_body cfg (now - reset_start_seconds) s)
      else Some s)"


datatype reset_outcome = False_trigger | Restarted reset_locals

text \<open>
  \<^verbatim>\<open>reset()\<close> itself: \<open>debounced\<close> is the level read 50 ms after the falling edge
  (line 55), \<open>reset_start_seconds\<close> the clock value of line 66.  The call of
  \<^verbatim>\<open>restart(power_off=..., recovery_mode=..., factory_reset=...)\<close> at line 109 is the event
  \<open>Restart power_off recovery_mode factory_reset\<close>.
\<close>

definition reset :: "recovery_config \<Rightarrow> level \<Rightarrow> real \<Rightarrow> (level \<times> real) list \<Rightarrow> reset_outcome option" where
  "reset cfg debounced reset_start_seconds samples =
     (if debounced = HIGH then Some False_trigger
      else
        (case poll_loop cfg reset_start_seconds samples
                \<lparr>recovery_mode = False, factory_reset = False, power_off = False,
                 emitted = [Sleep (5 / 100), Log_info ''Reset detected'',
                            Gpio_output GPIO_STATUS_GREEN True,
                            Gpio_output GPIO_STATUS_SOLID False]\<rparr> of
           None \<Rightarrow> None
         | Some s \<Rightarrow>
             Some (Restarted
               (s\<lparr>emitted := emitted s @
                    [Restart (power_off s) (recovery_mode s) (factory_reset s)]\<rparr>))))"

text \<open>The intent handed to \<^verbatim>\<open>restart\<close>: (power_off, recovery_mode, factory_reset).\<close>

definition intent_of :: "reset_outcome option \<Rightarrow> (bool \<times> bool \<times> bool) option" where
  "intent_of r =
     (case r of
        Some (Restarted s) \<Rightarrow> Some (power_off s, recovery_mode s, factory_reset s)
      | _ \<Rightarrow> None)"

text \<open>The thresholds named by the specification's examples.\<close>

definition example_config :: recovery_config where
  "example_config =
     \<lparr>RESET_REBOOT_SECONDS = 3, RESET_RECOVERY_SECONDS = 8, RESET_FACTORY_SECONDS = 15\<rparr>"

section \<open>Shutdown: \<^verbatim>\<open>cleanup()\<close>\<close>

text \<open>
  The part of the machine that \<^verbatim>\<open>main\<close> and \<^verbatim>\<open>cleanup\<close> read and change: which marker
  files exist, and the events so far.
\<close>

record sys_state =
  files :: "marker set"
  trace :: "event list"

definition emit :: "event list \<Rightarrow> sys_state \<Rightarrow> sys_state" where
  "emit es s = s\<lparr>trace := trace s @ es\<rparr>"

definition os_remove :: "marker \<Rightarrow> sys_state \<Rightarrow> sys_state" where
  "os_remove m s = s\<lparr>files := files s - {m}, trace := trace s @ [Os_remove m]\<rparr>"

text \<open>
  Lines 121 to 134.  The body has no guard of its own: every call runs it from the top.
  \<^verbatim>\<open>sys.exit(0)\<close> is its last statement and the last event; it raises \<^verbatim>\<open>SystemExit\<close> in
  the caller, which at line 361 ends the process.
\<close>

definition cleanup :: "sys_state \<Rightarrow> sys_state" where
  "cleanup s =
     (let s1 = emit [Gpio_output GPIO_STATUS_GREEN False,
                     Gpio_output GPIO_STATUS_SOLID False] s;
          s2 = (if POWEROFF_FILE \<in> files s1
                then emit [Gpio_output GPIO_STANDBY True, Sleep (1 / 10)]
                       (os_remove POWEROFF_FILE s1)
                else s1)
      in emit [Gpio_cleanup, Log_info ''CME system software exiting'', Sys_exit 0] s2)"

text \<open>The events that one call of \<^verbatim>\<open>cleanup\<close> adds to the trace.\<close>

definition cleanup_events :: "sys_state \<Rightarrow> event list" where
  "cleanup_events s = drop (length (trace s)) (trace (cleanup s))"

section \<open>Version selection: \<^verbatim>\<open>_parse_image\<close> and \<^verbatim>\<open>_list_docker_images\<close>\<close>

datatype error =
    NameError string
  | ValueError
  | IndexError
  | KeyboardInterrupt

subsection \<open>The \<^verbatim>\<open>semver\<close> package\<close>

text \<open>
  \<^verbatim>\<open>semver\<close> is a third-party package, so its code is not in the source tree.  The model
  follows Semantic Versioning 2.0.0, which the package implements: a version is
  \<^verbatim>\<open>MAJOR.MINOR.PATCH\<close>, then optionally \<^verbatim>\<open>-\<close> and dot-separated pre-release identifiers,
  then optionally \<^verbatim>\<open>+\<close> and dot-separated build identifiers.  Parsing anything else
  raises \<^verbatim>\<open>ValueError\<close>.  Build identifiers take no part in precedence.
\<close>

record version =
  major :: nat
  minor :: nat
  patch :: nat
  prerelease :: "string list option"
  build :: "string list option"

definition is_digit :: "char \<Rightarrow> bool" where
  "is_digit c = (CHR ''0'' \<le> c \<and> c \<le> CHR ''9'')"

definition is_ident_char :: "char \<Rightarrow> bool" where
  "is_ident_char c =
     (is_digit c \<or> (CHR ''A'' \<le> c \<and> c \<le> CHR ''Z'') \<or> (CHR ''a'' \<le> c \<and> c \<le> CHR ''z'')
      \<or> c = CHR ''-'')"

definition is_numeric :: "string \<Rightarrow> bool" where
  "is_numeric s = (s \<noteq> [] \<and> list_all is_digit s \<and> (s = ''0'' \<or> hd s \<noteq> CHR ''0''))"

definition nat_of_digits :: "string \<Rightarrow> nat" where
  "nat_of_digits s = foldl (\<lambda>n c. 10 * n + (of_char c - 48)) 0 s"

text \<open>Python's \<^verbatim>\<open>s.split(c)\<close> for a one-character separator: never the empty list.\<close>

fun split_on :: "char \<Rightarrow> string \<Rightarrow> string list" where
  "split_on c [] = [[]]"
| "split_on c (x # xs) =
     (if x = c then [] # split_on c xs
      else (let r = split_on c xs in (x # hd r) # tl r))"

text \<open>A pre-release identifier: not empty, of letters, digits and hyphens, and a numeric
  one has no leading zero.  A build identifier: not empty, of the same characters.\<close>

definition valid_prerelease_ident :: "string \<Rightarrow> bool" where
  "valid_prerelease_ident s =
     (s \<noteq> [] \<and> list_all is_ident_char s \<and> (list_all is_digit s \<longrightarrow> is_numeric s))"

definition valid_build_ident :: "string \<Rightarrow> bool" where
  "valid_build_ident s = (s \<noteq> [] \<and> list_all is_ident_char s)"

definition semver_parse :: "string \<Rightarrow> error + version" where
  "semver_parse s =
     (let front = takeWhile (\<lambda>c. c \<noteq> CHR ''+'') s;
          after_plus = dropWhile (\<lambda>c. c \<noteq> CHR ''+'') s;
          core = takeWhile (\<lambda>c. c \<noteq> CHR ''-'') front;
          after_minus = dropWhile (\<lambda>c. c \<noteq> CHR ''-'') front;
          pre = (if after_minus = [] then None else Some (split_on CHR ''.'' (tl after_minus)));
          bld = (if after_plus = [] then None else Some (split_on CHR ''.'' (tl after_plus)))
      in case split_on CHR ''.'' core of
           [a, b, c] \<Rightarrow>
             (if is_numeric a \<and> is_numeric b \<and> is_numeric c
                 \<and> (case pre of None \<Rightarrow> True | Some ids \<Rightarrow> list_all valid_prerelease_ident ids)
                 \<and> (case bld of None \<Rightarrow> True | Some ids \<Rightarrow> list_all valid_build_ident ids)
              then Inr \<lparr>major = nat_of_digits a, minor = nat_of_digits b,
                        patch = nat_of_digits c, prerelease = pre, build = bld\<rparr>
              else Inl ValueError)
         | _ \<Rightarrow> Inl ValueError)"

text \<open>
  Precedence: major, minor and patch numerically; a version with a pre-release is lower
  than the same version without; pre-release identifiers compare left to right, numeric
  ones numerically and below alphanumeric ones, alphanumeric ones in ASCII order, and a
  longer list wins over its own prefix.  The key below orders versions exactly so under
  the lexicographic orders on products and lists.
\<close>

definition ident_key :: "string \<Rightarrow> nat \<times> nat \<times> string" where
  "ident_key s = (if list_all is_digit s then (0, nat_of_digits s, []) else (1, 0, s))"

definition precedence :: "version \<Rightarrow> nat \<times> nat \<times> nat \<times> nat \<times> (nat \<times> nat \<times> string) list" where
  "precedence v =
     (major v, minor v, patch v,
      (case prerelease v of None \<Rightarrow> (1, []) | Some ids \<Rightarrow> (0, map ident_key ids)))"

text \<open>\<^verbatim>\<open>semver.compare(ver1, ver2)\<close>: -1, 0 or 1; parses both arguments, the first one first.\<close>

definition semver_compare :: "string \<Rightarrow> string \<Rightarrow> error + int" where
  "semver_compare ver1 ver2 =
     (case semver_parse ver1 of
        Inl e \<Rightarrow> Inl e
      | Inr v1 \<Rightarrow>
          (case semver_parse ver2 of
             Inl e \<Rightarrow> Inl e
           | Inr v2 \<Rightarrow>
               Inr (if precedence v1 < precedence v2 then - 1
                    else if precedence v1 = precedence v2 then 0 else 1)))"

text \<open>\<^verbatim>\<open>semver.match(version, match_expr)\<close>, with \<open>match_expr\<close> an operator followed by a version.\<close>

definition possibilities :: "string \<Rightarrow> int list" where
  "possibilities op =
     (if op = ''>'' then [1] else if op = ''<'' then [- 1]
      else if op = ''=='' then [0] else if op = ''!='' then [- 1, 1]
      else if op = ''>='' then [0, 1] else if op = ''<='' then [- 1, 0] else [])"

definition semver_match :: "string \<Rightarrow> string \<Rightarrow> error + bool" where
  "semver_match ver match_expr =
     (let prefix = take 2 match_expr in
      if prefix \<in> set [''>='', ''<='', ''=='', ''!='']
      then (case semver_compare ver (drop 2 match_expr) of
              Inl e \<Rightarrow> Inl e
            | Inr c \<Rightarrow> Inr (c \<in> set (possibilities prefix)))
      else if take 1 prefix \<in> set [''>'', ''<'']
      then (case semver_compare ver (drop 1 match_expr) of
              Inl e \<Rightarrow> Inl e
            | Inr c \<Rightarrow> Inr (c \<in> set (possibilities (take 1 prefix))))
      else Inl ValueError)"

subsection \<open>The selector\<close>

text \<open>
  An image is the Python list \<^verbatim>\<open>[name, tag]\<close>, modelled as a pair; \<^verbatim>\<open>None\<close> is \<open>None\<close>.
  \<open>new_image\<close> is one line of \<^verbatim>\<open>docker images\<close> after \<^verbatim>\<open>split()\<close>: a list of fields, of
  any length.  \<open>field xs i\<close> is \<^verbatim>\<open>xs[i]\<close>, which raises \<^verbatim>\<open>IndexError\<close> out of range.
\<close>

type_synonym image = "string \<times> string"

definition field :: "string list \<Rightarrow> nat \<Rightarrow> error + string" where
  "field xs i = (if i < length xs then Inr (xs ! i) else Inl IndexError)"

text \<open>Lines 338 to 345.\<close>

definition parse_image :: "string \<Rightarrow> image option \<Rightarrow> string list \<Rightarrow> error + image option" where
  "parse_image name current_image new_image =
     (case field new_image 0 of
        Inl e \<Rightarrow> Inl e
      | Inr n0 \<Rightarrow>
          if \<not> (n0 = name) then Inr current_image
          else
            (case current_image of
               None \<Rightarrow>
                 (case field new_image 1 of
                    Inl e \<Rightarrow> Inl e
                  | Inr n1 \<Rightarrow> Inr (Some (n0, n1)))
             | Some cur \<Rightarrow>
                 (case field new_image 1 of
                    Inl e \<Rightarrow> Inl e
                  | Inr n1 \<Rightarrow>
                      (case semver_match n1 (''>='' @ snd cur) of
                         Inl e \<Rightarrow> Inl e
                       | Inr m \<Rightarrow> if m then Inr (Some (n0, n1)) else Inr current_image))))"

text \<open>The dictionary returned by \<^verbatim>\<open>_list_docker_images\<close> always has these three keys.\<close>

record docker_images =
  cmeapi :: "image option"
  cmehw :: "image option"
  cmeweb :: "image option"

text \<open>
  The loop of lines 319 to 323 over \<open>rows\<close>, the lines of \<^verbatim>\<open>docker images\<close> after the
  header line, each already split into fields.  An exception ends the loop.
\<close>

fun images_loop :: "string list list \<Rightarrow> docker_images \<Rightarrow> error + docker_images" where
  "images_loop [] sel = Inr sel"
| "images_loop (img # rest) sel =
     (case parse_image ''cmeapi'' (cmeapi sel) img of
        Inl e \<Rightarrow> Inl e
      | Inr a \<Rightarrow>
          (case parse_image ''cmehw'' (cmehw sel) img of
             Inl e \<Rightarrow> Inl e
           | Inr h \<Rightarrow>
               (case parse_image ''cmeweb'' (cmeweb sel) img of
                  Inl e \<Rightarrow> Inl e
                | Inr w \<Rightarrow> images_loop rest \<lparr>cmeapi = a, cmehw = h, cmeweb = w\<rparr>)))"

definition list_docker_images :: "string list list \<Rightarrow> error + docker_images" where
  "list_docker_images rows = images_loop rows \<lparr>cmeapi = None, cmehw = None, cmeweb = None\<rparr>"

subsection \<open>Notions used to state what the selector returns\<close>

text \<open>A version string that \<^verbatim>\<open>semver\<close> accepts, and the precedence key of such a string.\<close>

definition valid_version :: "string \<Rightarrow> bool" where
  "valid_version v = (case semver_parse v of Inl _ \<Rightarrow> False | Inr _ \<Rightarrow> True)"

definition key_of :: "string \<Rightarrow> nat \<times> nat \<times> nat \<times> nat \<times> (nat \<times> nat \<times> string) list" where
  "key_of v = (case semver_parse v of Inl _ \<Rightarrow> (0, 0, 0, 0, []) | Inr ver \<Rightarrow> precedence ver)"

text \<open>
  What the loop of lines 319 to 323 does to one of its three variables: the calls of
  \<^verbatim>\<open>_parse_image\<close> for one name, row after row.
\<close>

fun select_loop :: "string \<Rightarrow> string list list \<Rightarrow> image option \<Rightarrow> error + image option" where
  "select_loop name [] cur = Inr cur"
| "select_loop name (img # rest) cur =
     (case parse_image name cur img of
        Inl e \<Rightarrow> Inl e
      | Inr c \<Rightarrow> select_loop name rest c)"

text \<open>The rows that carry a given name, in their order.\<close>

definition named :: "string \<Rightarrow> string list list \<Rightarrow> string list list" where
  "named name rows = filter (\<lambda>r. r ! 0 = name) rows"

text \<open>
  \<open>last_maximum name rows res\<close>: \<open>res\<close> is \<^verbatim>\<open>None\<close> when no row carries the name;
  otherwise it is the name and tag of a row of that name such that no row of the name
  before it compares greater, and every row of the name after it compares smaller.  That
  is the last row of maximal precedence.
\<close>

definition last_maximum :: "string \<Rightarrow> string list list \<Rightarrow> image option \<Rightarrow> bool" where
  "last_maximum name rows res =
     (case res of
        None \<Rightarrow> (\<forall>r\<in>set rows. r ! 0 \<noteq> name)
      | Some img \<Rightarrow> fst img = name \<and>
          (\<exists>pre x post. rows = pre @ x # post \<and> x ! 0 = name \<and> x ! 1 = snd img
             \<and> (\<forall>y\<in>set pre. y ! 0 = name \<longrightarrow>
                    semver_compare (y ! 1) (snd img) \<in> {Inr (- 1), Inr 0})
             \<and> (\<forall>y\<in>set post. y ! 0 = name \<longrightarrow>
                    semver_compare (y ! 1) (snd img) = Inr (- 1))))"

section \<open>Supervision: \<^verbatim>\<open>_stop_remove_containers\<close> and \<^verbatim>\<open>_launch_docker\<close>\<close>



text \<open>
  Lines 328 to 335.  \<open>containers\<close> is the output of \<^verbatim>\<open>docker ps -aq\<close> after
  \<^verbatim>\<open>rstrip().split(...)\<close>: one string per line, and the single empty string when there
  is no container.  The output of an external command is an input of the model.
\<close>

definition stop_and_remove :: "string \<Rightarrow> event list" where
  "stop_and_remove container =
     (if container \<noteq> []
      then [Subprocess_run [''docker'', ''stop'', container],
            Subprocess_run [''docker'', ''rm'', container]]
      else [])"

definition stop_remove_containers :: "string list \<Rightarrow> event list" where
  "stop_remove_containers containers =
     [Log_info ''Stopping and removing any module containers'',
      Subprocess_run [''docker'', ''ps'', ''-aq'']]
     @ concat (map stop_and_remove containers)"



section \<open>The boot pipeline: \<^verbatim>\<open>main()\<close>\<close>

text \<open>
  The names bound in the module when \<^verbatim>\<open>main\<close> runs: the imports of lines 5 to 12, the
  assignments of lines 18 to 40 and the functions.  A name that is neither here nor a
  builtin raises \<^verbatim>\<open>NameError\<close> when it is looked up; \<^verbatim>\<open>glob\<close> is not a builtin.
\<close>

definition module_globals :: "string list" where
  "module_globals =
     [''logging'', ''signal'', ''os'', ''sys'', ''time'', ''subprocess'', ''threading'',
      ''datetime'', ''GPIO'', ''semver'', ''Config'', ''restart'',
      ''GPIO_STATUS_SOLID'', ''GPIO_STATUS_GREEN'', ''GPIO_N_RESET'', ''GPIO_STANDBY'',
      ''logger'', ''formatter'', ''sh'', ''fh'',
      ''reset'', ''cleanup'', ''main'', ''_launch_docker'', ''_list_docker_images'',
      ''_stop_remove_containers'', ''_parse_image'']"

definition lookup_global :: "string \<Rightarrow> error + unit" where
  "lookup_global name = (if name \<in> set module_globals then Inr () else Inl (NameError name))"

text \<open>What the outside world answers while \<^verbatim>\<open>main\<close> runs.\<close>

record environment =
  packages :: "string list"
  containers_at_boot :: "string list"
  image_rows :: "string list list"
  cwd :: string

text \<open>Stage 1, lines 153 to 162: returns the local variable \<^verbatim>\<open>recovery_mode\<close> of \<^verbatim>\<open>main\<close>, written \<open>in_recovery\<close> below.\<close>

definition recovery_gate :: "sys_state \<Rightarrow> bool \<times> sys_state" where
  "recovery_gate s =
     (if RECOVERY_FILE \<in> files s
      then (True, os_remove RECOVERY_FILE (emit [Log_info ''Recovery mode boot requested''] s))
      else (False, emit [Log_info ''Normal boot mode requested''] s))"

text \<open>
  Stage 2, lines 171 to 192.  Line 178 evaluates \<^verbatim>\<open>glob.glob(...)\<close>, so the name
  \<^verbatim>\<open>glob\<close> is looked up first.  \<open>updates_found\<close> stays \<^verbatim>\<open>False\<close>.
\<close>

definition update_check :: "environment \<Rightarrow> bool \<Rightarrow> sys_state \<Rightarrow> error option \<times> sys_state" where
  "update_check env in_recovery s =
     (if \<not> in_recovery
      then
        (let s1 = emit [Log_info ''Checking for updates''] s in
         case lookup_global ''glob'' of
           Inl e \<Rightarrow> (Some e, s1)
         | Inr _ \<Rightarrow>
             (let updates_found = False;
                  s2 = (if length (packages env) > 0
                        then emit [Print ''This is where packages loaded to docker...''] s1
                        else s1)
              in (None, if \<not> updates_found then emit [Log_info ''No updates found''] s2 else s2)))
      else (None, emit [Log_info ''Update stage bypassed (Recovery mode)''] s))"

text \<open>
  Lines 216 to 244, what the main thread does once all three images are there.  The
  waiters run \<^verbatim>\<open>_launch_docker\<close> in threads of their own; their events are not the main
  thread's.  \<open>dir\<close> is the working directory, and \<^verbatim>\<open>os.path.join\<close> puts a slash between
  it and the file name.
\<close>

definition launch_events :: "string \<Rightarrow> event list" where
  "launch_events dir =
     [Log_info (''Lauching '' @ dir @ ''/cme-docker-fifo.sh''),
      Popen (dir @ ''/cme-docker-fifo.sh''),
      Thread_start T_cmeapi, Thread_start T_cmehw, Thread_start T_cmeweb,
      Gpio_output GPIO_STATUS_GREEN True, Gpio_output GPIO_STATUS_SOLID True,
      Thread_join T_cmeapi, Thread_join T_cmehw, Thread_join T_cmeweb,
      Log_info (''Terminating '' @ dir @ ''/cme-docker-fifo.sh''),
      Fifo_terminate,
      Log_warning ''Application module(s) exiting'']"

text \<open>
  The events that bring a service up: the fifo helper of line 219, a waiter thread, or a
  \<^verbatim>\<open>docker run\<close>.
\<close>

fun starts_service :: "event \<Rightarrow> bool" where
  "starts_service (Popen f) = True"
| "starts_service (Thread_start t) = True"
| "starts_service (Subprocess_run cmd) = (take 2 cmd = [''docker'', ''run''])"
| "starts_service _ = False"

text \<open>Stage 3, lines 200 to 251.\<close>

definition module_launch :: "environment \<Rightarrow> bool \<Rightarrow> sys_state \<Rightarrow> error option \<times> sys_state" where
  "module_launch env in_recovery s =
     (if \<not> in_recovery
      then
        (let s1 = emit [Log_info ''Launching modules''] s;
             s2 = emit (stop_remove_containers (containers_at_boot env)) s1;
             s3 = emit [Subprocess_run [''docker'', ''images'']] s2
         in case list_docker_images (image_rows env) of
              Inl e \<Rightarrow> (Some e, s3)
            | Inr images \<Rightarrow>
                if cmeapi images \<noteq> None \<and> cmehw images \<noteq> None \<and> cmeweb images \<noteq> None
                then (None, emit (launch_events (cwd env)) s3)
                else (None, emit [Log_warning ''Application modules not found''] s3))
      else (None, emit [Log_info ''Module launch stage bypassed (Recovery mode)''] s))"

text \<open>Stage 4, lines 259 to 264.\<close>

definition recovery_launch :: "sys_state \<Rightarrow> sys_state" where
  "recovery_launch s =
     emit [Log_info ''Launching recovery module'',
           Gpio_output GPIO_STATUS_GREEN False,
           Gpio_output GPIO_STATUS_SOLID True,
           Subprocess_run [''cd /root/Cme-api; source cmeapi_venv/bin/activate; python -m cmeapi'']] s"

text \<open>Stages 3 and 4 together: what \<^verbatim>\<open>main\<close> does from line 200 on.\<close>

definition launch_then_recovery :: "environment \<Rightarrow> bool \<Rightarrow> sys_state \<Rightarrow> error option \<times> sys_state" where
  "launch_then_recovery env in_recovery s =
     (case module_launch env in_recovery s of
        (Some e, s') \<Rightarrow> (Some e, s')
      | (None, s') \<Rightarrow> (None, recovery_launch s'))"

definition main :: "environment \<Rightarrow> sys_state \<Rightarrow> error option \<times> sys_state" where
  "main env s =
     (let (in_recovery, s1) = recovery_gate (emit [Log_info ''CME system starting''] s) in
      case update_check env in_recovery s1 of
        (Some e, s2) \<Rightarrow> (Some e, s2)
      | (None, s2) \<Rightarrow> launch_then_recovery env in_recovery s2)"

text \<open>
  The message of an exception, as \<^verbatim>\<open>format\<close> prints it.  The text of a \<^verbatim>\<open>ValueError\<close> is
  the \<^verbatim>\<open>semver\<close> package's own; the model writes the name of the exception for it.
\<close>

definition error_message :: "error \<Rightarrow> string" where
  "error_message e =
     (case e of
        NameError n \<Rightarrow> ''name '' @ [CHR 0x27] @ n @ [CHR 0x27] @ '' is not defined''
      | ValueError \<Rightarrow> ''ValueError''
      | IndexError \<Rightarrow> ''list index out of range''
      | KeyboardInterrupt \<Rightarrow> [])"

text \<open>Lines 349 to 361: whatever \<^verbatim>\<open>main\<close> does, \<^verbatim>\<open>cleanup\<close> runs last.\<close>

definition toplevel :: "environment \<Rightarrow> sys_state \<Rightarrow> sys_state" where
  "toplevel env s =
     (case main env s of
        (None, s') \<Rightarrow> cleanup s'
      | (Some KeyboardInterrupt, s') \<Rightarrow>
          cleanup (emit [Log_info ''Avalanche (Cme-init) shutdown requested ... exiting''] s')
      | (Some e, s') \<Rightarrow>
          cleanup (emit [Log_info (''Avalanche (Cme-init) has STOPPED on exception ''
                                   @ error_message e)] s'))"

section \<open>The waiters and the main thread together\<close>














section \<open>Properties of the hold classifier\<close>

lemmas loop_defs =
  loop_body_def after_reboot_check_def after_recovery_check_def after_factory_check_def






lemma poll_loop_ends_powered_off:
  "poll_loop cfg t0 samples s = Some s' \<Longrightarrow> power_off s'"
  by (induction samples arbitrary: s) (auto split: if_splits)

lemma reset_restarts_powered_off:
  "reset cfg LOW t0 samples = Some (Restarted s) \<Longrightarrow> power_off s"
  by (auto simp: reset_def split: option.splits dest: poll_loop_ends_powered_off)

text \<open>
  Claim C1: a hold ends the poll loop the first time the input is back at the released
  level, and the intent reflects the highest threshold crossed by then; with thresholds
  3, 8 and 15 seconds a release at 1 second gives the plain reboot intent, with all flags
  false.

  The loop of line 79 does not do this.  Its test is
  \<^verbatim>\<open>GPIO.input(GPIO_N_RESET) == GPIO.LOW or not power_off\<close>, so a released input does
  not end it while \<open>power_off\<close> is false.  With the button released at 1 second, the loop
  is still running after the poll that sees the release; it goes on polling, passes the
  three thresholds on the clock alone, and ends with the power-off intent.  (Whenever
  \<^verbatim>\<open>reset\<close> calls \<^verbatim>\<open>restart\<close> at all, it does so with \<open>power_off\<close> true: lemma
  \<open>reset_restarts_powered_off\<close>.)
\<close>

theorem release_at_one_second_ends_in_power_off:
  "reset example_config LOW 0 [(LOW, 1 / 2), (HIGH, 1)] = None
   \<and> intent_of (reset example_config LOW 0
        [(LOW, 1 / 2), (HIGH, 1), (HIGH, 5), (HIGH, 12), (HIGH, 1501 / 100), (HIGH, 1503 / 100)])
      = Some (True, False, False)"
  by (simp add: reset_def intent_of_def example_config_def loop_defs)



section \<open>Properties of the shutdown\<close>

lemma cleanup_events_eq:
  "cleanup_events s =
     [Gpio_output GPIO_STATUS_GREEN False, Gpio_output GPIO_STATUS_SOLID False]
     @ (if POWEROFF_FILE \<in> files s
        then [Os_remove POWEROFF_FILE, Gpio_output GPIO_STANDBY True, Sleep (1 / 10)]
        else [])
     @ [Gpio_cleanup, Log_info ''CME system software exiting'', Sys_exit 0]"
  by (simp add: cleanup_events_def cleanup_def emit_def os_remove_def Let_def)

lemma trace_cleanup: "trace (cleanup s) = trace s @ cleanup_events s"
  by (simp add: cleanup_events_def cleanup_def emit_def os_remove_def Let_def)

lemma files_cleanup: "files (cleanup s) = files s - {POWEROFF_FILE}"
  by (auto simp add: cleanup_def emit_def os_remove_def Let_def)

text \<open>
  Claim C9: the teardown performs its steps in this order: the indicators go to red and
  blinking; then, only if the power-off marker file exists, the marker is deleted and the
  standby output is asserted and held for 100 ms; then the GPIO claims are released; last,
  the process exits with code 0.  The marker is gone before the GPIO is released.
\<close>

theorem cleanup_step_order:
  "trace (cleanup s) =
     trace s
     @ [Gpio_output GPIO_STATUS_GREEN False, Gpio_output GPIO_STATUS_SOLID False]
     @ (if POWEROFF_FILE \<in> files s
        then [Os_remove POWEROFF_FILE, Gpio_output GPIO_STANDBY True, Sleep (1 / 10)]
        else [])
     @ [Gpio_cleanup, Log_info ''CME system software exiting'', Sys_exit 0]
   \<and> POWEROFF_FILE \<notin> files (cleanup s)"
  unfolding trace_cleanup cleanup_events_eq files_cleanup by simp

theorem cleanup_step_order_witness:
  "trace (cleanup \<lparr>files = {POWEROFF_FILE, RECOVERY_FILE}, trace = []\<rparr>) =
     [Gpio_output GPIO_STATUS_GREEN False, Gpio_output GPIO_STATUS_SOLID False,
      Os_remove POWEROFF_FILE, Gpio_output GPIO_STANDBY True, Sleep (1 / 10),
      Gpio_cleanup, Log_info ''CME system software exiting'', Sys_exit 0]
   \<and> trace (cleanup \<lparr>files = {RECOVERY_FILE}, trace = []\<rparr>) =
     [Gpio_output GPIO_STATUS_GREEN False, Gpio_output GPIO_STATUS_SOLID False,
      Gpio_cleanup, Log_info ''CME system software exiting'', Sys_exit 0]"
  using cleanup_step_order [of "\<lparr>files = {POWEROFF_FILE, RECOVERY_FILE}, trace = []\<rparr>"]
        cleanup_step_order [of "\<lparr>files = {RECOVERY_FILE}, trace = []\<rparr>"]
  by simp

text \<open>
  Claim C10: during the teardown the standby line is asserted if and only if the power-off
  marker file exists when \<^verbatim>\<open>cleanup\<close> runs; when the marker is absent, the standby line is
  not written at all and no file is removed.
\<close>

theorem standby_iff_poweroff_marker:
  "(Gpio_output GPIO_STANDBY True \<in> set (cleanup_events s) \<longleftrightarrow> POWEROFF_FILE \<in> files s)
   \<and> (POWEROFF_FILE \<notin> files s \<longrightarrow>
        (\<forall>v. Gpio_output GPIO_STANDBY v \<notin> set (cleanup_events s))
        \<and> (\<forall>m. Os_remove m \<notin> set (cleanup_events s)))"
  unfolding cleanup_events_eq by simp

theorem standby_iff_poweroff_marker_witness:
  "Gpio_output GPIO_STANDBY True \<in> set (cleanup_events \<lparr>files = {POWEROFF_FILE}, trace = []\<rparr>)
   \<and> Gpio_output GPIO_STANDBY True \<notin> set (cleanup_events \<lparr>files = {}, trace = []\<rparr>)
   \<and> Os_remove POWEROFF_FILE \<notin> set (cleanup_events \<lparr>files = {}, trace = []\<rparr>)"
  using standby_iff_poweroff_marker [of "\<lparr>files = {POWEROFF_FILE}, trace = []\<rparr>"]
        standby_iff_poweroff_marker [of "\<lparr>files = {}, trace = []\<rparr>"]
  by simp




section \<open>Properties of the version selection\<close>

lemma semver_parse_error: "semver_parse s = Inl e \<Longrightarrow> e = ValueError"
  by (auto simp: semver_parse_def Let_def split: list.splits if_splits)

lemma invalid_parse: "\<not> valid_version v \<Longrightarrow> semver_parse v = Inl ValueError"
  by (auto simp: valid_version_def split: sum.splits dest: semver_parse_error)

lemma compare_valid:
  "valid_version a \<Longrightarrow> valid_version b \<Longrightarrow>
   semver_compare a b = Inr (if key_of a < key_of b then - 1 else if key_of a = key_of b then 0 else 1)"
  by (auto simp: valid_version_def key_of_def semver_compare_def split: sum.splits)

lemma compare_invalid:
  "\<not> valid_version a \<or> \<not> valid_version b \<Longrightarrow> semver_compare a b = Inl ValueError"
  by (auto simp: semver_compare_def invalid_parse split: sum.splits dest: semver_parse_error)

lemma match_ge:
  "semver_match a (''>='' @ b) =
     (case semver_compare a b of Inl e \<Rightarrow> Inl e | Inr c \<Rightarrow> Inr (c = 0 \<or> c = 1))"
  by (auto simp: semver_match_def possibilities_def Let_def split: sum.splits)

lemma parse_image_row:
  assumes "2 \<le> length r"
  shows "parse_image n cur r =
     (if r ! 0 \<noteq> n then Inr cur
      else case cur of
             None \<Rightarrow> Inr (Some (r ! 0, r ! 1))
           | Some c \<Rightarrow>
               (case semver_compare (r ! 1) (snd c) of
                  Inl e \<Rightarrow> Inl e
                | Inr k \<Rightarrow> Inr (if k = 0 \<or> k = 1 then Some (r ! 0, r ! 1) else cur)))"
proof -
  from assms have f: "0 < length r" "1 < length r" by auto
  show ?thesis
    unfolding parse_image_def field_def match_ge using f
    by (cases cur) (auto split: sum.splits)
qed

lemma select_loop_snoc:
  "select_loop n (rows @ [r]) cur =
     (case select_loop n rows cur of Inl e \<Rightarrow> Inl e | Inr c \<Rightarrow> parse_image n c r)"
  by (induction rows arbitrary: cur) (auto split: sum.splits)


lemma select_loop_key_max:
  assumes "\<forall>r\<in>set rows. 2 \<le> length r"
    and "\<forall>r\<in>set rows. r ! 0 = n \<longrightarrow> valid_version (r ! 1)"
  shows "\<exists>res. select_loop n rows None = Inr res \<and>
           (case res of
              None \<Rightarrow> (\<forall>r\<in>set rows. r ! 0 \<noteq> n)
            | Some img \<Rightarrow> fst img = n \<and>
                (\<exists>pre x post. rows = pre @ x # post \<and> x ! 0 = n \<and> x ! 1 = snd img
                   \<and> (\<forall>y\<in>set pre. y ! 0 = n \<longrightarrow> key_of (y ! 1) \<le> key_of (snd img))
                   \<and> (\<forall>y\<in>set post. y ! 0 = n \<longrightarrow> key_of (y ! 1) < key_of (snd img))))"
  using assms
proof (induction rows rule: rev_induct)
  case Nil
  then show ?case by simp
next
  case (snoc r rows)
  from snoc.prems have len: "2 \<le> length r" by simp
  from snoc.IH snoc.prems obtain res where
    res: "select_loop n rows None = Inr res"
    and inv: "case res of
        None \<Rightarrow> (\<forall>r\<in>set rows. r ! 0 \<noteq> n)
      | Some img \<Rightarrow> fst img = n \<and>
          (\<exists>pre x post. rows = pre @ x # post \<and> x ! 0 = n \<and> x ! 1 = snd img
             \<and> (\<forall>y\<in>set pre. y ! 0 = n \<longrightarrow> key_of (y ! 1) \<le> key_of (snd img))
             \<and> (\<forall>y\<in>set post. y ! 0 = n \<longrightarrow> key_of (y ! 1) < key_of (snd img)))"
    by auto
  have step: "select_loop n (rows @ [r]) None = parse_image n res r"
    by (simp add: select_loop_snoc res)
  show ?case
  proof (cases "r ! 0 = n")
    case False
    then have "parse_image n res r = Inr res" by (simp add: parse_image_row[OF len])
    moreover have "case res of
        None \<Rightarrow> (\<forall>r\<in>set (rows @ [r]). r ! 0 \<noteq> n)
      | Some img \<Rightarrow> fst img = n \<and>
          (\<exists>pre x post. rows @ [r] = pre @ x # post \<and> x ! 0 = n \<and> x ! 1 = snd img
             \<and> (\<forall>y\<in>set pre. y ! 0 = n \<longrightarrow> key_of (y ! 1) \<le> key_of (snd img))
             \<and> (\<forall>y\<in>set post. y ! 0 = n \<longrightarrow> key_of (y ! 1) < key_of (snd img)))"
    proof (cases res)
      case None
      with inv False show ?thesis by simp
    next
      case (Some img)
      with inv obtain pre x post where d: "fst img = n" "rows = pre @ x # post" "x ! 0 = n"
        "x ! 1 = snd img" "\<forall>y\<in>set pre. y ! 0 = n \<longrightarrow> key_of (y ! 1) \<le> key_of (snd img)"
        "\<forall>y\<in>set post. y ! 0 = n \<longrightarrow> key_of (y ! 1) < key_of (snd img)"
        by auto
      have "rows @ [r] = pre @ x # (post @ [r])" using d(2) by simp
      moreover have "\<forall>y\<in>set (post @ [r]). y ! 0 = n \<longrightarrow> key_of (y ! 1) < key_of (snd img)"
        using d(6) False by simp
      ultimately have "\<exists>pre' x' post'. rows @ [r] = pre' @ x' # post' \<and> x' ! 0 = n \<and> x' ! 1 = snd img
             \<and> (\<forall>y\<in>set pre'. y ! 0 = n \<longrightarrow> key_of (y ! 1) \<le> key_of (snd img))
             \<and> (\<forall>y\<in>set post'. y ! 0 = n \<longrightarrow> key_of (y ! 1) < key_of (snd img))"
        using d(3,4,5) by blast
      then show ?thesis using Some d(1) by simp
    qed
    ultimately show ?thesis using step by simp
  next
    case True
    with snoc.prems have vr: "valid_version (r ! 1)" by simp
    show ?thesis
    proof (cases res)
      case None
      then have "parse_image n res r = Inr (Some (n, r ! 1))"
        using True by (simp add: parse_image_row[OF len])
      moreover have "rows @ [r] = rows @ r # []" by simp
      moreover from inv None have "\<forall>y\<in>set rows. y ! 0 = n \<longrightarrow> key_of (y ! 1) \<le> key_of (r ! 1)"
        by simp
      ultimately have "parse_image n res r = Inr (Some (n, r ! 1))"
        and "\<exists>pre' x' post'. rows @ [r] = pre' @ x' # post' \<and> x' ! 0 = n \<and> x' ! 1 = r ! 1
             \<and> (\<forall>y\<in>set pre'. y ! 0 = n \<longrightarrow> key_of (y ! 1) \<le> key_of (r ! 1))
             \<and> (\<forall>y\<in>set post'. y ! 0 = n \<longrightarrow> key_of (y ! 1) < key_of (r ! 1))"
        using True by (blast, intro exI[of _ rows] exI[of _ r] exI[of _ "[]"]) simp
      then show ?thesis using step by simp
    next
      case (Some img)
      with inv obtain pre x post where d: "fst img = n" "rows = pre @ x # post" "x ! 0 = n"
        "x ! 1 = snd img" "\<forall>y\<in>set pre. y ! 0 = n \<longrightarrow> key_of (y ! 1) \<le> key_of (snd img)"
        "\<forall>y\<in>set post. y ! 0 = n \<longrightarrow> key_of (y ! 1) < key_of (snd img)"
        by auto
      from d(2,3,4) snoc.prems(2) have vv: "valid_version (snd img)" by auto
      show ?thesis
      proof (cases "key_of (r ! 1) < key_of (snd img)")
        case lt: True
        then have "parse_image n res r = Inr (Some img)"
          using True Some compare_valid[OF vr vv] by (simp add: parse_image_row[OF len])
        moreover have "rows @ [r] = pre @ x # (post @ [r])" using d(2) by simp
        moreover have "\<forall>y\<in>set (post @ [r]). y ! 0 = n \<longrightarrow> key_of (y ! 1) < key_of (snd img)"
          using d(6) lt by simp
        ultimately have "parse_image n res r = Inr (Some img)"
          and "\<exists>pre' x' post'. rows @ [r] = pre' @ x' # post' \<and> x' ! 0 = n \<and> x' ! 1 = snd img
             \<and> (\<forall>y\<in>set pre'. y ! 0 = n \<longrightarrow> key_of (y ! 1) \<le> key_of (snd img))
             \<and> (\<forall>y\<in>set post'. y ! 0 = n \<longrightarrow> key_of (y ! 1) < key_of (snd img))"
          using d(3,4,5) by blast+
        then show ?thesis using step d(1) by simp
      next
        case ge: False
        then have "parse_image n res r = Inr (Some (n, r ! 1))"
          using True Some compare_valid[OF vr vv] by (simp add: parse_image_row[OF len])
        moreover have "\<forall>y\<in>set rows. y ! 0 = n \<longrightarrow> key_of (y ! 1) \<le> key_of (r ! 1)"
          using d(2,4,5,6) ge by (auto simp: not_less intro: order_trans less_imp_le)
        ultimately have "parse_image n res r = Inr (Some (n, r ! 1))"
          and "\<exists>pre' x' post'. rows @ [r] = pre' @ x' # post' \<and> x' ! 0 = n \<and> x' ! 1 = r ! 1
             \<and> (\<forall>y\<in>set pre'. y ! 0 = n \<longrightarrow> key_of (y ! 1) \<le> key_of (r ! 1))
             \<and> (\<forall>y\<in>set post'. y ! 0 = n \<longrightarrow> key_of (y ! 1) < key_of (r ! 1))"
          using True by (blast, intro exI[of _ rows] exI[of _ r] exI[of _ "[]"]) simp
        then show ?thesis using step by simp
      qed
    qed
  qed
qed


lemma compare_le_key:
  "valid_version a \<Longrightarrow> valid_version b \<Longrightarrow> key_of a \<le> key_of b \<Longrightarrow>
   semver_compare a b \<in> {Inr (- 1), Inr 0}"
  by (auto simp: compare_valid)

lemma compare_less_key:
  "valid_version a \<Longrightarrow> valid_version b \<Longrightarrow> key_of a < key_of b \<Longrightarrow>
   semver_compare a b = Inr (- 1)"
  by (simp add: compare_valid)

lemma select_loop_last_maximum:
  assumes wf: "\<forall>r\<in>set rows. 2 \<le> length r"
    and ok: "\<forall>r\<in>set rows. r ! 0 = n \<longrightarrow> valid_version (r ! 1)"
  shows "\<exists>res. select_loop n rows None = Inr res \<and> last_maximum n rows res"
proof -
  from select_loop_key_max[OF wf ok] obtain res where
    res: "select_loop n rows None = Inr res"
    and inv: "case res of
        None \<Rightarrow> (\<forall>r\<in>set rows. r ! 0 \<noteq> n)
      | Some img \<Rightarrow> fst img = n \<and>
          (\<exists>pre x post. rows = pre @ x # post \<and> x ! 0 = n \<and> x ! 1 = snd img
             \<and> (\<forall>y\<in>set pre. y ! 0 = n \<longrightarrow> key_of (y ! 1) \<le> key_of (snd img))
             \<and> (\<forall>y\<in>set post. y ! 0 = n \<longrightarrow> key_of (y ! 1) < key_of (snd img)))"
    by blast
  have "last_maximum n rows res"
  proof (cases res)
    case None
    with inv show ?thesis by (simp add: last_maximum_def)
  next
    case (Some img)
    with inv obtain pre x post where d: "fst img = n" "rows = pre @ x # post" "x ! 0 = n"
      "x ! 1 = snd img" "\<forall>y\<in>set pre. y ! 0 = n \<longrightarrow> key_of (y ! 1) \<le> key_of (snd img)"
      "\<forall>y\<in>set post. y ! 0 = n \<longrightarrow> key_of (y ! 1) < key_of (snd img)"
      by auto
    from d(2,3,4) ok have vv: "valid_version (snd img)" by auto
    have a: "\<forall>y\<in>set pre. y ! 0 = n \<longrightarrow> semver_compare (y ! 1) (snd img) \<in> {Inr (- 1), Inr 0}"
    proof (intro ballI impI)
      fix y assume y: "y \<in> set pre" "y ! 0 = n"
      with ok d(2) have "valid_version (y ! 1)" by auto
      with y d(5) vv show "semver_compare (y ! 1) (snd img) \<in> {Inr (- 1), Inr 0}"
        by (intro compare_le_key) auto
    qed
    have b: "\<forall>y\<in>set post. y ! 0 = n \<longrightarrow> semver_compare (y ! 1) (snd img) = Inr (- 1)"
    proof (intro ballI impI)
      fix y assume y: "y \<in> set post" "y ! 0 = n"
      with ok d(2) have "valid_version (y ! 1)" by auto
      with y d(6) vv show "semver_compare (y ! 1) (snd img) = Inr (- 1)"
        by (intro compare_less_key) auto
    qed
    from a b d(1,2,3,4) have "fst img = n \<and>
          (\<exists>pre x post. rows = pre @ x # post \<and> x ! 0 = n \<and> x ! 1 = snd img
             \<and> (\<forall>y\<in>set pre. y ! 0 = n \<longrightarrow>
                    semver_compare (y ! 1) (snd img) \<in> {Inr (- 1), Inr 0})
             \<and> (\<forall>y\<in>set post. y ! 0 = n \<longrightarrow>
                    semver_compare (y ! 1) (snd img) = Inr (- 1)))"
      by blast
    with Some show ?thesis unfolding last_maximum_def by simp
  qed
  with res show ?thesis by blast
qed

lemma images_loop_Inr:
  "images_loop rows sel = Inr sel' \<Longrightarrow>
   select_loop ''cmeapi'' rows (cmeapi sel) = Inr (cmeapi sel')
   \<and> select_loop ''cmehw'' rows (cmehw sel) = Inr (cmehw sel')
   \<and> select_loop ''cmeweb'' rows (cmeweb sel) = Inr (cmeweb sel')"
proof (induction rows arbitrary: sel)
  case Nil
  then show ?case by simp
next
  case (Cons r rows)
  from Cons.prems obtain a h w where
    st: "parse_image ''cmeapi'' (cmeapi sel) r = Inr a"
        "parse_image ''cmehw'' (cmehw sel) r = Inr h"
        "parse_image ''cmeweb'' (cmeweb sel) r = Inr w"
        "images_loop rows \<lparr>cmeapi = a, cmehw = h, cmeweb = w\<rparr> = Inr sel'"
    by (auto split: sum.splits)
  from Cons.IH[OF st(4)] st(1,2,3) show ?case by simp
qed

lemma images_loop_Inl:
  "images_loop rows sel = Inl e \<Longrightarrow>
   select_loop ''cmeapi'' rows (cmeapi sel) = Inl e
   \<or> select_loop ''cmehw'' rows (cmehw sel) = Inl e
   \<or> select_loop ''cmeweb'' rows (cmeweb sel) = Inl e"
proof (induction rows arbitrary: sel)
  case Nil
  then show ?case by simp
next
  case (Cons r rows)
  show ?case
  proof (cases "parse_image ''cmeapi'' (cmeapi sel) r")
    case (Inl e1)
    with Cons.prems show ?thesis by simp
  next
    case a: (Inr a)
    show ?thesis
    proof (cases "parse_image ''cmehw'' (cmehw sel) r")
      case (Inl e2)
      with a Cons.prems show ?thesis by simp
    next
      case h: (Inr h)
      show ?thesis
      proof (cases "parse_image ''cmeweb'' (cmeweb sel) r")
        case (Inl e3)
        with a h Cons.prems show ?thesis by simp
      next
        case w: (Inr w)
        with a h Cons.prems have "images_loop rows \<lparr>cmeapi = a, cmehw = h, cmeweb = w\<rparr> = Inl e"
          by simp
        from Cons.IH[OF this] a h w show ?thesis by simp
      qed
    qed
  qed
qed

lemma list_docker_images_cases:
  "(\<exists>sel. list_docker_images rows = Inr sel
      \<and> select_loop ''cmeapi'' rows None = Inr (cmeapi sel)
      \<and> select_loop ''cmehw'' rows None = Inr (cmehw sel)
      \<and> select_loop ''cmeweb'' rows None = Inr (cmeweb sel))
   \<or> (\<exists>e. list_docker_images rows = Inl e
      \<and> (select_loop ''cmeapi'' rows None = Inl e
         \<or> select_loop ''cmehw'' rows None = Inl e
         \<or> select_loop ''cmeweb'' rows None = Inl e))"
proof (cases "list_docker_images rows")
  case (Inl e)
  then have "images_loop rows \<lparr>cmeapi = None, cmehw = None, cmeweb = None\<rparr> = Inl e"
    by (simp add: list_docker_images_def)
  from images_loop_Inl[OF this] Inl show ?thesis by simp
next
  case (Inr sel)
  then have "images_loop rows \<lparr>cmeapi = None, cmehw = None, cmeweb = None\<rparr> = Inr sel"
    by (simp add: list_docker_images_def)
  from images_loop_Inr[OF this] Inr show ?thesis by simp
qed

text \<open>
  Claim C4, amended: for every list of rows with at least the two fields name and tag, in
  which the rows of the three required names carry version strings that parse, the
  selector returns for each required name the row of that name with maximal precedence,
  \<^verbatim>\<open>None\<close> when there is none; among rows of equal precedence the last one in list order is
  selected.
\<close>

theorem selection_is_last_maximum:
  assumes wf: "\<forall>r\<in>set rows. 2 \<le> length r"
    and ok: "\<forall>r\<in>set rows. r ! 0 \<in> {''cmeapi'', ''cmehw'', ''cmeweb''} \<longrightarrow> valid_version (r ! 1)"
  shows "\<exists>sel. list_docker_images rows = Inr sel
           \<and> last_maximum ''cmeapi'' rows (cmeapi sel)
           \<and> last_maximum ''cmehw'' rows (cmehw sel)
           \<and> last_maximum ''cmeweb'' rows (cmeweb sel)"
proof -
  from ok have "\<forall>r\<in>set rows. r ! 0 = ''cmeapi'' \<longrightarrow> valid_version (r ! 1)" by simp
  from select_loop_last_maximum[OF wf this] obtain a where
    a: "select_loop ''cmeapi'' rows None = Inr a" "last_maximum ''cmeapi'' rows a" by blast
  from ok have "\<forall>r\<in>set rows. r ! 0 = ''cmehw'' \<longrightarrow> valid_version (r ! 1)" by simp
  from select_loop_last_maximum[OF wf this] obtain h where
    h: "select_loop ''cmehw'' rows None = Inr h" "last_maximum ''cmehw'' rows h" by blast
  from ok have "\<forall>r\<in>set rows. r ! 0 = ''cmeweb'' \<longrightarrow> valid_version (r ! 1)" by simp
  from select_loop_last_maximum[OF wf this] obtain w where
    w: "select_loop ''cmeweb'' rows None = Inr w" "last_maximum ''cmeweb'' rows w" by blast
  from list_docker_images_cases[of rows] a(1) h(1) w(1)
  obtain sel where "list_docker_images rows = Inr sel" "cmeapi sel = a" "cmehw sel = h" "cmeweb sel = w"
    by auto
  with a(2) h(2) w(2) show ?thesis by blast
qed


theorem selection_is_last_maximum_witness:
  "\<exists>sel. list_docker_images
            [[''cmeapi'', ''1.2.0'', ''3f1a''], [''cmehw'', ''2.0.0-rc.1'', ''77b0''],
             [''cmeapi'', ''1.10.0'', ''9c2e''], [''busybox'', ''latest'', ''0d11''],
             [''cmeapi'', ''1.9.3'', ''5a5a'']] = Inr sel
         \<and> last_maximum ''cmeapi''
            [[''cmeapi'', ''1.2.0'', ''3f1a''], [''cmehw'', ''2.0.0-rc.1'', ''77b0''],
             [''cmeapi'', ''1.10.0'', ''9c2e''], [''busybox'', ''latest'', ''0d11''],
             [''cmeapi'', ''1.9.3'', ''5a5a'']] (cmeapi sel)
         \<and> cmeapi sel = Some (''cmeapi'', ''1.10.0'')
         \<and> cmehw sel = Some (''cmehw'', ''2.0.0-rc.1'')
         \<and> cmeweb sel = None"
proof -
  let ?rows = "[[''cmeapi'', ''1.2.0'', ''3f1a''], [''cmehw'', ''2.0.0-rc.1'', ''77b0''],
             [''cmeapi'', ''1.10.0'', ''9c2e''], [''busybox'', ''latest'', ''0d11''],
             [''cmeapi'', ''1.9.3'', ''5a5a'']]"
  have wf: "\<forall>r\<in>set ?rows. 2 \<le> length r" by simp
  have v: "valid_version ''1.2.0''" "valid_version ''2.0.0-rc.1''" "valid_version ''1.10.0''"
    "valid_version ''1.9.3''"
    by code_simp+
  have ok: "\<forall>r\<in>set ?rows. r ! 0 \<in> {''cmeapi'', ''cmehw'', ''cmeweb''} \<longrightarrow> valid_version (r ! 1)"
    using v by simp
  have ev: "list_docker_images ?rows =
    Inr \<lparr>cmeapi = Some (''cmeapi'', ''1.10.0''), cmehw = Some (''cmehw'', ''2.0.0-rc.1''), cmeweb = None\<rparr>"
    by code_simp
  from selection_is_last_maximum[OF wf ok] ev show ?thesis by auto
qed

text \<open>
  Claim C4, as stated: of two entries of a name with equal versions the first one is
  selected.  Line 342 tests \<^verbatim>\<open>>=\<close>, so an entry that compares equal replaces the current
  one: of two entries that differ in build metadata only, the second is returned.
\<close>

theorem equal_versions_select_the_later_entry:
  "semver_compare ''1.0.0+build.1'' ''1.0.0+build.2'' = Inr 0
   \<and> list_docker_images [[''cmeapi'', ''1.0.0+build.1''], [''cmeapi'', ''1.0.0+build.2'']]
       = Inr \<lparr>cmeapi = Some (''cmeapi'', ''1.0.0+build.2''), cmehw = None, cmeweb = None\<rparr>"
  by code_simp


lemma semver_compare_error: "semver_compare a b = Inl e \<Longrightarrow> e = ValueError"
  by (auto simp: semver_compare_def split: sum.splits dest: semver_parse_error)

lemma select_loop_error_is_ValueError:
  "\<forall>r\<in>set rows. 2 \<le> length r \<Longrightarrow> select_loop n rows cur = Inl e \<Longrightarrow> e = ValueError"
proof (induction rows arbitrary: cur)
  case Nil
  then show ?case by simp
next
  case (Cons r rows)
  from Cons.prems(1) have len: "2 \<le> length r" by simp
  show ?case
  proof (cases "parse_image n cur r")
    case (Inl e1)
    with Cons.prems(2) have "e1 = e" by simp
    with Inl show ?thesis
      by (auto simp: parse_image_row[OF len] split: if_splits option.splits sum.splits
          dest: semver_compare_error)
  next
    case (Inr c)
    with Cons.prems have "select_loop n rows c = Inl e" by simp
    with Cons.IH Cons.prems(1) show ?thesis by simp
  qed
qed

lemma select_loop_named:
  "\<forall>r\<in>set rows. 2 \<le> length r \<Longrightarrow> select_loop n rows cur = select_loop n (named n rows) cur"
proof (induction rows arbitrary: cur)
  case Nil
  then show ?case by (simp add: named_def)
next
  case (Cons r rows)
  from Cons.prems have len: "2 \<le> length r" by simp
  from Cons.prems have IH: "\<And>c. select_loop n rows c = select_loop n (named n rows) c"
    using Cons.IH by simp
  show ?case
  proof (cases "r ! 0 = n")
    case True
    then have "named n (r # rows) = r # named n rows" by (simp add: named_def)
    then show ?thesis by (simp add: IH split: sum.splits)
  next
    case False
    then have "named n (r # rows) = named n rows" by (simp add: named_def)
    moreover from False have "parse_image n cur r = Inr cur" by (simp add: parse_image_row[OF len])
    ultimately show ?thesis by (simp add: IH)
  qed
qed

lemma named_props: "r \<in> set (named n rows) \<Longrightarrow> r \<in> set rows \<and> r ! 0 = n"
  by (simp add: named_def)

lemma select_loop_raises_from_Some:
  assumes "\<forall>r\<in>set xs. 2 \<le> length r \<and> r ! 0 = n"
  shows "(\<exists>e. select_loop n xs (Some (n, v)) = Inl e)
         \<longleftrightarrow> xs \<noteq> [] \<and> (\<not> valid_version v \<or> (\<exists>r\<in>set xs. \<not> valid_version (r ! 1)))"
  using assms
proof (induction xs arbitrary: v)
  case Nil
  then show ?case by simp
next
  case (Cons x xs)
  from Cons.prems have len: "2 \<le> length x" and nm: "x ! 0 = n" by simp_all
  from Cons.prems have rest: "\<forall>r\<in>set xs. 2 \<le> length r \<and> r ! 0 = n" by simp
  show ?case
  proof (cases "valid_version (x ! 1) \<and> valid_version v")
    case False
    then have "semver_compare (x ! 1) v = Inl ValueError" by (intro compare_invalid) auto
    then have "parse_image n (Some (n, v)) x = Inl ValueError"
      using nm by (simp add: parse_image_row[OF len])
    with False show ?thesis by auto
  next
    case True
    then have cmp: "semver_compare (x ! 1) v =
        Inr (if key_of (x ! 1) < key_of v then - 1 else if key_of (x ! 1) = key_of v then 0 else 1)"
      by (intro compare_valid) auto
    obtain v' where step: "parse_image n (Some (n, v)) x = Inr (Some (n, v'))"
      and v': "valid_version v'"
    proof (cases "key_of (x ! 1) < key_of v")
      case lt: True
      with cmp nm have "parse_image n (Some (n, v)) x = Inr (Some (n, v))"
        by (simp add: parse_image_row[OF len])
      with True that show ?thesis by blast
    next
      case ge: False
      with cmp nm have "parse_image n (Some (n, v)) x = Inr (Some (n, x ! 1))"
        by (simp add: parse_image_row[OF len])
      with True that show ?thesis by blast
    qed
    from Cons.IH[OF rest, of v'] v' have
      "(\<exists>e. select_loop n xs (Some (n, v')) = Inl e) \<longleftrightarrow> (\<exists>r\<in>set xs. \<not> valid_version (r ! 1))"
      by auto
    with step True show ?thesis by auto
  qed
qed

lemma select_loop_raises_iff:
  assumes wf: "\<forall>r\<in>set rows. 2 \<le> length r"
  shows "(\<exists>e. select_loop n rows None = Inl e)
         \<longleftrightarrow> 2 \<le> length (named n rows) \<and> (\<exists>r\<in>set (named n rows). \<not> valid_version (r ! 1))"
proof (cases "named n rows")
  case Nil
  then show ?thesis using select_loop_named[OF wf, of n None] by simp
next
  case (Cons x xs)
  then have x: "2 \<le> length x" "x ! 0 = n" and xs: "\<forall>r\<in>set xs. 2 \<le> length r \<and> r ! 0 = n"
    using named_props[of _ n rows] wf by auto
  have "select_loop n rows None = select_loop n xs (Some (n, x ! 1))"
    using select_loop_named[OF wf, of n None] Cons x by (simp add: parse_image_row)
  with select_loop_raises_from_Some[OF xs, of "x ! 1"] Cons show ?thesis
    by (cases xs) auto
qed

lemma select_loop_lone_entry:
  assumes wf: "\<forall>r\<in>set rows. 2 \<le> length r" and lone: "named n rows = [r]"
  shows "select_loop n rows None = Inr (Some (n, r ! 1))"
proof -
  from lone have "r \<in> set (named n rows)" by simp
  with named_props wf have "2 \<le> length r" "r ! 0 = n" by auto
  with select_loop_named[OF wf, of n None] lone show ?thesis
    by (simp add: parse_image_row)
qed

text \<open>
  Claim C5, amended: a version string that does not parse is not set aside.  For rows
  with at least the two fields name and tag, the selection raises \<^verbatim>\<open>ValueError\<close> exactly
  when some required name has two or more rows of which at least one carries a version
  string that does not parse; otherwise it returns a result.  A row that is the only one
  of its name is selected as it is, whether its version string parses or not.
\<close>

theorem malformed_version_is_not_excluded:
  assumes wf: "\<forall>r\<in>set rows. 2 \<le> length r"
  shows "(list_docker_images rows = Inl ValueError \<longleftrightarrow>
            (\<exists>n\<in>{''cmeapi'', ''cmehw'', ''cmeweb''}.
               2 \<le> length (named n rows) \<and> (\<exists>r\<in>set (named n rows). \<not> valid_version (r ! 1))))
         \<and> ((\<exists>sel. list_docker_images rows = Inr sel) \<longleftrightarrow>
              list_docker_images rows \<noteq> Inl ValueError)
         \<and> (\<forall>sel r. list_docker_images rows = Inr sel \<longrightarrow>
               (named ''cmeapi'' rows = [r] \<longrightarrow> cmeapi sel = Some (''cmeapi'', r ! 1))
               \<and> (named ''cmehw'' rows = [r] \<longrightarrow> cmehw sel = Some (''cmehw'', r ! 1))
               \<and> (named ''cmeweb'' rows = [r] \<longrightarrow> cmeweb sel = Some (''cmeweb'', r ! 1)))"
proof -
  note cases = list_docker_images_cases[of rows]
  note err = select_loop_error_is_ValueError[OF wf]
  have raise: "\<And>n. (\<exists>e. select_loop n rows None = Inl e) \<longleftrightarrow> select_loop n rows None = Inl ValueError"
    using err by blast
  have A: "list_docker_images rows = Inl ValueError \<longleftrightarrow>
            (\<exists>n\<in>{''cmeapi'', ''cmehw'', ''cmeweb''}.
               2 \<le> length (named n rows) \<and> (\<exists>r\<in>set (named n rows). \<not> valid_version (r ! 1)))"
  proof
    assume "list_docker_images rows = Inl ValueError"
    with cases have "select_loop ''cmeapi'' rows None = Inl ValueError
         \<or> select_loop ''cmehw'' rows None = Inl ValueError
         \<or> select_loop ''cmeweb'' rows None = Inl ValueError"
      by auto
    then show "\<exists>n\<in>{''cmeapi'', ''cmehw'', ''cmeweb''}.
               2 \<le> length (named n rows) \<and> (\<exists>r\<in>set (named n rows). \<not> valid_version (r ! 1))"
      using select_loop_raises_iff[OF wf] by blast
  next
    assume "\<exists>n\<in>{''cmeapi'', ''cmehw'', ''cmeweb''}.
               2 \<le> length (named n rows) \<and> (\<exists>r\<in>set (named n rows). \<not> valid_version (r ! 1))"
    then obtain n where n: "n \<in> {''cmeapi'', ''cmehw'', ''cmeweb''}"
      "\<exists>e. select_loop n rows None = Inl e"
      using select_loop_raises_iff[OF wf] by blast
    with cases obtain e where e: "list_docker_images rows = Inl e"
      "select_loop ''cmeapi'' rows None = Inl e
         \<or> select_loop ''cmehw'' rows None = Inl e
         \<or> select_loop ''cmeweb'' rows None = Inl e"
      by auto
    from e(2) err have "e = ValueError" by blast
    with e(1) show "list_docker_images rows = Inl ValueError" by simp
  qed
  have B: "(\<exists>sel. list_docker_images rows = Inr sel) \<longleftrightarrow> list_docker_images rows \<noteq> Inl ValueError"
    using cases err by (cases "list_docker_images rows") auto
  have C: "\<forall>sel r. list_docker_images rows = Inr sel \<longrightarrow>
               (named ''cmeapi'' rows = [r] \<longrightarrow> cmeapi sel = Some (''cmeapi'', r ! 1))
               \<and> (named ''cmehw'' rows = [r] \<longrightarrow> cmehw sel = Some (''cmehw'', r ! 1))
               \<and> (named ''cmeweb'' rows = [r] \<longrightarrow> cmeweb sel = Some (''cmeweb'', r ! 1))"
    using cases select_loop_lone_entry[OF wf] by auto
  from A B C show ?thesis by blast
qed


theorem malformed_version_is_not_excluded_witness:
  "list_docker_images [[''cmeapi'', ''latest''], [''cmehw'', ''1.0.0''], [''cmeapi'', ''1.0.0'']]
     = Inl ValueError
   \<and> (\<exists>sel. list_docker_images [[''cmeapi'', ''latest''], [''cmehw'', ''1.0.0'']] = Inr sel
          \<and> cmeapi sel = Some (''cmeapi'', ''latest''))"
proof -
  let ?rows0 = "[[''cmeapi'', ''latest''], [''cmehw'', ''1.0.0''], [''cmeapi'', ''1.0.0'']]"
  let ?rows1 = "[[''cmeapi'', ''latest''], [''cmehw'', ''1.0.0'']]"
  have bad: "\<not> valid_version ''latest''" by code_simp
  have good: "valid_version ''1.0.0''" by code_simp
  have wf0: "\<forall>r\<in>set ?rows0. 2 \<le> length r" by simp
  have wf1: "\<forall>r\<in>set ?rows1. 2 \<le> length r" by simp
  have n0: "named ''cmeapi'' ?rows0 = [[''cmeapi'', ''latest''], [''cmeapi'', ''1.0.0'']]"
    by (simp add: named_def)
  have "\<exists>n\<in>{''cmeapi'', ''cmehw'', ''cmeweb''}.
          2 \<le> length (named n ?rows0) \<and> (\<exists>r\<in>set (named n ?rows0). \<not> valid_version (r ! 1))"
    using n0 bad by (intro bexI[of _ "''cmeapi''"]) simp_all
  with malformed_version_is_not_excluded[OF wf0]
  have first: "list_docker_images ?rows0 = Inl ValueError" by blast
  have n1: "named ''cmeapi'' ?rows1 = [[''cmeapi'', ''latest'']]"
       "named ''cmehw'' ?rows1 = [[''cmehw'', ''1.0.0'']]"
       "named ''cmeweb'' ?rows1 = []"
    by (simp_all add: named_def)
  have "\<not> (\<exists>n\<in>{''cmeapi'', ''cmehw'', ''cmeweb''}.
          2 \<le> length (named n ?rows1) \<and> (\<exists>r\<in>set (named n ?rows1). \<not> valid_version (r ! 1)))"
    using n1 by simp
  with malformed_version_is_not_excluded[OF wf1]
  obtain sel where sel: "list_docker_images ?rows1 = Inr sel" by blast
  with malformed_version_is_not_excluded[OF wf1] n1(1)
  have "cmeapi sel = Some (''cmeapi'', [''cmeapi'', ''latest''] ! 1)" by blast
  with sel first show ?thesis by simp
qed

text \<open>
  Claim C5, as stated: a list with a malformed version string does not make the
  selection raise, and the other entries still give a result.  \<^verbatim>\<open>semver.match\<close> parses both
  of its arguments and nothing catches its \<^verbatim>\<open>ValueError\<close>: with the tag \<^verbatim>\<open>latest\<close> after a
  well-formed entry of the same name the selection raises, although the well-formed
  entry alone resolves.
\<close>

theorem malformed_version_raises:
  "list_docker_images [[''cmeapi'', ''1.0.0'', ''3f1a''], [''cmeapi'', ''latest'', ''9c2e'']]
     = Inl ValueError
   \<and> list_docker_images [[''cmeapi'', ''1.0.0'', ''3f1a'']]
     = Inr \<lparr>cmeapi = Some (''cmeapi'', ''1.0.0''), cmehw = None, cmeweb = None\<rparr>"
  by code_simp

section \<open>Properties of the boot pipeline\<close>

lemma lookup_glob: "lookup_global ''glob'' = Inl (NameError ''glob'')"
  by (simp add: lookup_global_def module_globals_def)

text \<open>
  Claim C3: on a boot without the recovery marker, the update check completes and the
  pipeline goes on to the module launch, whether or not update packages are present.

  The code does not get there.  Line 178 calls \<^verbatim>\<open>glob.glob\<close>, and line 5 does not import
  \<^verbatim>\<open>glob\<close>: on every normal boot \<^verbatim>\<open>main\<close> raises \<^verbatim>\<open>NameError\<close> right after logging
  "Checking for updates", whatever the packages are.  Stage 3 is never entered; the
  handler of line 357 logs the exception and \<^verbatim>\<open>cleanup\<close> runs.
\<close>

theorem normal_boot_stops_in_update_check:
  assumes "RECOVERY_FILE \<notin> files s"
  shows "main env s =
           (Some (NameError ''glob''),
            emit [Log_info ''CME system starting'', Log_info ''Normal boot mode requested'',
                  Log_info ''Checking for updates''] s)
         \<and> Log_info ''Launching modules'' \<notin> set (drop (length (trace s)) (trace (toplevel env s)))
         \<and> trace (toplevel env s) =
             trace s
             @ [Log_info ''CME system starting'', Log_info ''Normal boot mode requested'',
                Log_info ''Checking for updates'',
                Log_info (''Avalanche (Cme-init) has STOPPED on exception ''
                          @ error_message (NameError ''glob''))]
             @ cleanup_events s"
  using assms
  by (simp add: main_def recovery_gate_def update_check_def lookup_glob emit_def toplevel_def
      trace_cleanup cleanup_events_eq)

theorem normal_boot_stops_in_update_check_witness:
  "main \<lparr>packages = [], containers_at_boot = [[]],
         image_rows = [[''cmeapi'', ''1.0.0''], [''cmehw'', ''1.0.0''], [''cmeweb'', ''1.0.0'']],
         cwd = ''/root''\<rparr>
        \<lparr>files = {}, trace = []\<rparr>
   = (Some (NameError ''glob''),
      \<lparr>files = {},
       trace = [Log_info ''CME system starting'', Log_info ''Normal boot mode requested'',
                Log_info ''Checking for updates'']\<rparr>)"
  using normal_boot_stops_in_update_check
          [of "\<lparr>files = {}, trace = []\<rparr>"
              "\<lparr>packages = [], containers_at_boot = [[]],
                image_rows = [[''cmeapi'', ''1.0.0''], [''cmehw'', ''1.0.0''], [''cmeweb'', ''1.0.0'']],
                cwd = ''/root''\<rparr>"]
  by (simp add: emit_def)

lemma starts_service_stop_and_remove: "e \<in> set (stop_and_remove c) \<Longrightarrow> \<not> starts_service e"
  by (auto simp: stop_and_remove_def split: if_splits)

lemma starts_service_stop_remove_containers:
  "e \<in> set (stop_remove_containers cs) \<Longrightarrow> \<not> starts_service e"
  by (auto simp: stop_remove_containers_def dest: starts_service_stop_and_remove)

text \<open>
  Claim C6: the group is launched as a whole or not at all.  When the images found lack
  one of cmeapi, cmehw and cmeweb, the launch stage starts nothing, reports that the
  modules were not found, and \<^verbatim>\<open>main\<close> goes on to launch the recovery module.

  The statement is about the code of \<^verbatim>\<open>main\<close> from line 200 on, on a normal boot
  (\<open>in_recovery = False\<close>), for any answer of \<^verbatim>\<open>docker ps -aq\<close> and any rows of
  \<^verbatim>\<open>docker images\<close> whose selection lacks an image.
\<close>

theorem incomplete_group_launches_nothing:
  assumes "list_docker_images (image_rows env) = Inr images"
    and "cmeapi images = None \<or> cmehw images = None \<or> cmeweb images = None"
  shows "\<exists>s1. module_launch env False s = (None, s1)
          \<and> trace s1 =
              trace s
              @ [Log_info ''Launching modules'']
              @ stop_remove_containers (containers_at_boot env)
              @ [Subprocess_run [''docker'', ''images''],
                 Log_warning ''Application modules not found'']
          \<and> list_all (\<lambda>e. \<not> starts_service e) (drop (length (trace s)) (trace s1))
          \<and> launch_then_recovery env False s = (None, recovery_launch s1)
          \<and> trace (recovery_launch s1) =
              trace s1
              @ [Log_info ''Launching recovery module'',
                 Gpio_output GPIO_STATUS_GREEN False,
                 Gpio_output GPIO_STATUS_SOLID True,
                 Subprocess_run [''cd /root/Cme-api; source cmeapi_venv/bin/activate; python -m cmeapi'']]"
proof -
  have "list_all (\<lambda>e. \<not> starts_service e) (stop_remove_containers (containers_at_boot env))"
    by (simp add: list_all_iff starts_service_stop_remove_containers)
  with assms show ?thesis
    by (auto simp: launch_then_recovery_def module_launch_def recovery_launch_def emit_def Let_def)
qed

lemma example_resolution:
  "list_docker_images [[''cmeapi'', ''1.2.0''], [''cmeapi'', ''1.3.0''], [''cmehw'', ''2.0.0'']]
   = Inr \<lparr>cmeapi = Some (''cmeapi'', ''1.3.0''), cmehw = Some (''cmehw'', ''2.0.0''), cmeweb = None\<rparr>"
  by code_simp

theorem incomplete_group_launches_nothing_witness:
  "launch_then_recovery
     \<lparr>packages = [], containers_at_boot = [''0a1b''],
      image_rows = [[''cmeapi'', ''1.2.0''], [''cmeapi'', ''1.3.0''], [''cmehw'', ''2.0.0'']],
      cwd = ''/root''\<rparr>
     False \<lparr>files = {}, trace = []\<rparr>
   = (None,
      \<lparr>files = {},
       trace = [Log_info ''Launching modules'',
                Log_info ''Stopping and removing any module containers'',
                Subprocess_run [''docker'', ''ps'', ''-aq''],
                Subprocess_run [''docker'', ''stop'', ''0a1b''],
                Subprocess_run [''docker'', ''rm'', ''0a1b''],
                Subprocess_run [''docker'', ''images''],
                Log_warning ''Application modules not found'',
                Log_info ''Launching recovery module'',
                Gpio_output GPIO_STATUS_GREEN False,
                Gpio_output GPIO_STATUS_SOLID True,
                Subprocess_run [''cd /root/Cme-api; source cmeapi_venv/bin/activate; python -m cmeapi'']]\<rparr>)"
proof -
  let ?env = "\<lparr>packages = [], containers_at_boot = [''0a1b''],
      image_rows = [[''cmeapi'', ''1.2.0''], [''cmeapi'', ''1.3.0''], [''cmehw'', ''2.0.0'']],
      cwd = ''/root''\<rparr>"
  have a: "list_docker_images (image_rows ?env)
    = Inr \<lparr>cmeapi = Some (''cmeapi'', ''1.3.0''), cmehw = Some (''cmehw'', ''2.0.0''), cmeweb = None\<rparr>"
    using example_resolution by simp
  have b: "cmeapi \<lparr>cmeapi = Some (''cmeapi'', ''1.3.0''), cmehw = Some (''cmehw'', ''2.0.0''), cmeweb = None\<rparr> = None
     \<or> cmehw \<lparr>cmeapi = Some (''cmeapi'', ''1.3.0''), cmehw = Some (''cmehw'', ''2.0.0''), cmeweb = None\<rparr> = None
     \<or> cmeweb \<lparr>cmeapi = Some (''cmeapi'', ''1.3.0''), cmehw = Some (''cmehw'', ''2.0.0''), cmeweb = None\<rparr> = None"
    by simp
  from incomplete_group_launches_nothing [OF a b, of "\<lparr>files = {}, trace = []\<rparr>"]
  obtain s1 where s1: "launch_then_recovery ?env False \<lparr>files = {}, trace = []\<rparr> = (None, recovery_launch s1)"
     "trace s1 = trace \<lparr>files = {}, trace = []\<rparr> @ [Log_info ''Launching modules'']
              @ stop_remove_containers (containers_at_boot ?env)
              @ [Subprocess_run [''docker'', ''images''],
                 Log_warning ''Application modules not found'']"
     "module_launch ?env False \<lparr>files = {}, trace = []\<rparr> = (None, s1)"
    by blast
  from s1(3) have "files s1 = {}"
    by (auto simp: module_launch_def emit_def Let_def split: sum.splits if_splits)
  with s1(1,2) show ?thesis
    by (simp add: recovery_launch_def emit_def stop_remove_containers_def stop_and_remove_def)
qed

section \<open>Properties of the waiters and the main thread\<close>



























end
